theory Spec2Isabelle
  imports Complex_Main "HOL-Library.Word" "HOL-Library.Sublist"
begin

section \<open>The highlight matcher of \<open>src/components/PDFViewer.tsx\<close>\<close>

text \<open>
  The development embeds the effect \<open>SMART BBOX HIGHLIGHTING\<close> of the component
  \<open>PDFViewer\<close> (lines 82 to 204) and its inner function \<open>calculateHighlights\<close>.

  \<^item> A JavaScript string is a sequence of UTF-16 code units; \<open>str[i]\<close>,
    \<open>split('')\<close>, \<open>length\<close> and \<open>indexOf\<close> all work on code units.
  \<^item> The numbers of a \<open>DOMRect\<close> are finite doubles. They are modelled as rationals,
    and the two products of the source (\<open>pageRect.width * 0.9\<close> and
    \<open>normalizedQuery.length * 1.5\<close>) as exact products.
  \<^item> A text node is identified by its position in the order of the \<open>TreeWalker\<close>.
  \<^item> What the browser answers (the text layer, ranges, rectangles, scrolling) is a record
    of functions, each of which may throw where the call is inside the \<open>try\<close> block.
  \<^item> The React state \<open>highlights\<close> is passed in and returned; a run that never calls
    \<open>setHighlights\<close> returns it unchanged.
\<close>

subsection \<open>Strings\<close>

type_synonym code_unit = "16 word"
type_synonym js_string = "code_unit list"

text \<open>A string literal of the examples, as code units (ASCII only).\<close>

definition utf16 :: "string \<Rightarrow> js_string" where
  "utf16 s = map of_char s"

text \<open>The test of the regular expression \<open>[a-zA-Z0-9]\<close> extended by the ideographs
  U+4E00 to U+9FA5, on a string of one code unit.\<close>

definition isAlphaNumeric :: "code_unit \<Rightarrow> bool" where
  "isAlphaNumeric char \<longleftrightarrow>
     (0x61 \<le> char \<and> char \<le> 0x7A) \<or> (0x41 \<le> char \<and> char \<le> 0x5A) \<or>
     (0x30 \<le> char \<and> char \<le> 0x39) \<or> (0x4E00 \<le> char \<and> char \<le> 0x9FA5)"

text \<open>
  \<open>toLowerCase\<close> on the code units that pass \<open>isAlphaNumeric\<close>, the only ones it is
  applied to: an upper-case Latin letter goes to its lower-case letter, digits, lower-case
  letters and the ideographs U+4E00 to U+9FA5 have no case mapping.
\<close>

definition toLowerCase :: "code_unit \<Rightarrow> code_unit" where
  "toLowerCase char = (if 0x41 \<le> char \<and> char \<le> 0x5A then char + 0x20 else char)"

text \<open>\<open>highlightText.split('').filter(isAlphaNumeric).join('').toLowerCase()\<close>\<close>

definition normalizeQuery :: "js_string \<Rightarrow> js_string" where
  "normalizeQuery highlightText = map toLowerCase (filter isAlphaNumeric highlightText)"

text \<open>
  \<open>String.prototype.indexOf(searchString, position)\<close>: the position is clamped to
  \<open>[0, length]\<close>, the result is the least index from there on at which the search string
  occurs, and \<open>-1\<close> when there is none.
\<close>

fun scanFrom :: "'a list \<Rightarrow> 'a list \<Rightarrow> nat \<Rightarrow> int" where
  "scanFrom searchString [] k = (if searchString = [] then int k else - 1)"
| "scanFrom searchString (c # cs) k =
     (if take (length searchString) (c # cs) = searchString then int k
      else scanFrom searchString cs (Suc k))"

definition indexOf :: "'a list \<Rightarrow> 'a list \<Rightarrow> int \<Rightarrow> int" where
  "indexOf str searchString position =
     (let start = min (nat (max 0 position)) (length str)
      in scanFrom searchString (drop start str) start)"

text \<open>
  \<open>String.prototype.substring(start, end)\<close> and \<open>substring(start)\<close>: both arguments
  are clamped to \<open>[0, length]\<close> and swapped when the first is the larger.
\<close>

definition substring :: "'a list \<Rightarrow> int \<Rightarrow> int \<Rightarrow> 'a list" where
  "substring str start end =
     (let a = min (nat (max 0 start)) (length str);
          b = min (nat (max 0 end)) (length str)
      in take (max a b - min a b) (drop (min a b) str))"

definition substringFrom :: "'a list \<Rightarrow> int \<Rightarrow> 'a list" where
  "substringFrom str start = substring str start (int (length str))"

subsection \<open>The character index\<close>

record charMapEntry =
  node :: nat
  index :: nat

text \<open>The inner loop \<open>for (let i = 0; i < str.length; i++)\<close> over one text node.\<close>

fun scanChars ::
  "nat \<Rightarrow> js_string \<Rightarrow> nat \<Rightarrow> js_string \<times> charMapEntry list \<Rightarrow> js_string \<times> charMapEntry list"
where
  "scanChars txtNode [] i acc = acc"
| "scanChars txtNode (char # rest) i (normalizedPdfText, charMap) =
     scanChars txtNode rest (Suc i)
       (if isAlphaNumeric char
        then (normalizedPdfText @ [toLowerCase char],
              charMap @ [\<lparr>node = txtNode, index = i\<rparr>])
        else (normalizedPdfText, charMap))"

text \<open>The outer loop \<open>for (const txtNode of textNodes)\<close>.\<close>

fun scanNodes ::
  "js_string list \<Rightarrow> nat \<Rightarrow> js_string \<times> charMapEntry list \<Rightarrow> js_string \<times> charMapEntry list"
where
  "scanNodes [] txtNode acc = acc"
| "scanNodes (str # rest) txtNode acc = scanNodes rest (Suc txtNode) (scanChars txtNode str 0 acc)"

definition buildMap :: "js_string list \<Rightarrow> js_string \<times> charMapEntry list" where
  "buildMap textNodes = scanNodes textNodes 0 ([], [])"

text \<open>\<open>charMap[i]\<close>: \<open>undefined\<close> outside the array.\<close>

definition charMapAt :: "charMapEntry list \<Rightarrow> int \<Rightarrow> charMapEntry option" where
  "charMapAt charMap i =
     (if 0 \<le> i \<and> i < int (length charMap) then Some (charMap ! nat i) else None)"

subsection \<open>Matching: exact, then anchors\<close>

text \<open>
  Step 3 of \<open>calculateHighlights\<close> (lines 123 to 153): the pair
  \<open>(startIndex, endIndex)\<close> when the \<open>if\<close> of line 155 is reached.
\<close>

definition matchSpan :: "js_string \<Rightarrow> js_string \<Rightarrow> int \<times> int" where
  "matchSpan normalizedPdfText normalizedQuery =
     (let startIndex = indexOf normalizedPdfText normalizedQuery 0 in
      if startIndex \<noteq> - 1
      then (startIndex, startIndex + int (length normalizedQuery) - 1)
      else
        let ANCHOR_LEN = min 30 (int (length normalizedQuery div 2)) in
        if ANCHOR_LEN > 5
        then
          let head = substring normalizedQuery 0 ANCHOR_LEN;
              tail = substringFrom normalizedQuery (int (length normalizedQuery) - ANCHOR_LEN);
              headIndex = indexOf normalizedPdfText head 0
          in
            if headIndex \<noteq> - 1
            then
              let searchStart = headIndex + ANCHOR_LEN;
                  maxDistance = (of_nat (length normalizedQuery) * (3 / 2) :: rat);
                  tailIndex = indexOf normalizedPdfText tail searchStart
              in
                if tailIndex \<noteq> - 1 \<and> of_int (tailIndex - headIndex) < maxDistance
                then (headIndex, tailIndex + int (length tail) - 1)
                else (startIndex, - 1)
            else (startIndex, - 1)
        else (startIndex, - 1))"

subsection \<open>Geometry\<close>

record DOMRect =
  r_left :: rat
  r_top :: rat
  r_width :: rat
  r_height :: rat

record HighlightRect =
  h_left :: rat
  h_top :: rat
  h_width :: rat
  h_height :: rat

text \<open>The loop over \<open>rects\<close> (lines 176 to 188), pushing onto \<open>newHighlights\<close>.\<close>

fun collectRects :: "DOMRect list \<Rightarrow> DOMRect \<Rightarrow> HighlightRect list \<Rightarrow> HighlightRect list" where
  "collectRects [] pageRect newHighlights = newHighlights"
| "collectRects (r # rects) pageRect newHighlights =
     (if r_width r < 1 \<or> r_height r < 1 then collectRects rects pageRect newHighlights
      else if r_width r > r_width pageRect * (9 / 10) \<and> r_height r > r_height pageRect * (9 / 10)
      then collectRects rects pageRect newHighlights
      else collectRects rects pageRect
             (newHighlights @
              [\<lparr>h_left = r_left r - r_left pageRect, h_top = r_top r - r_top pageRect,
                h_width = r_width r, h_height = r_height r\<rparr>]))"

subsection \<open>The browser\<close>

datatype dom_error = DOMException string

text \<open>
  \<open>textLayer\<close> is the text of the text nodes under \<open>.react-pdf__Page__textContent\<close> in
  tree order, \<open>None\<close> when the container or the layer is missing. \<open>setStart\<close> and
  \<open>setEnd\<close> take a node and an offset, \<open>getClientRects\<close> the two boundary points of the
  range. \<open>getBoundingClientRect\<close> is \<open>pageElement?.getBoundingClientRect()\<close>, \<open>None\<close> for
  \<open>undefined\<close>. \<open>scrollIntoView\<close> takes the node whose parent is scrolled to.
\<close>

record env =
  textLayerReady :: bool
  pageContainer :: bool
  textLayer :: "js_string list option"
  setStart :: "nat \<Rightarrow> nat \<Rightarrow> dom_error option"
  setEnd :: "nat \<Rightarrow> nat \<Rightarrow> dom_error option"
  getClientRects :: "nat \<times> nat \<Rightarrow> nat \<times> nat \<Rightarrow> dom_error + DOMRect list"
  getBoundingClientRect :: "dom_error + DOMRect option"
  scrollIntoView :: "nat \<Rightarrow> dom_error option"

subsection \<open>The highlight computation\<close>

text \<open>
  The body of the \<open>try\<close> (lines 167 to 193): \<open>Inl\<close> is an exception thrown inside it,
  \<open>Inr\<close> the state \<open>highlights\<close> when the body ends normally.
\<close>

definition tryBody ::
  "env \<Rightarrow> charMapEntry \<Rightarrow> charMapEntry \<Rightarrow> HighlightRect list \<Rightarrow> dom_error + HighlightRect list"
where
  "tryBody e startNodeData endNodeData highlights =
     (case setStart e (node startNodeData) (index startNodeData) of
        Some err \<Rightarrow> Inl err
      | None \<Rightarrow>
     (case setEnd e (node endNodeData) (index endNodeData + 1) of
        Some err \<Rightarrow> Inl err
      | None \<Rightarrow>
     (case getClientRects e (node startNodeData, index startNodeData)
                            (node endNodeData, index endNodeData + 1) of
        Inl err \<Rightarrow> Inl err
      | Inr rects \<Rightarrow>
     (case getBoundingClientRect e of
        Inl err \<Rightarrow> Inl err
      | Inr None \<Rightarrow> Inr highlights
      | Inr (Some pageRect) \<Rightarrow>
          let newHighlights = collectRects rects pageRect [] in
          if length newHighlights > 0
          then (case scrollIntoView e (node startNodeData) of
                  Some err \<Rightarrow> Inl err
                | None \<Rightarrow> Inr newHighlights)
          else Inr newHighlights))))"

text \<open>
  \<open>calculateHighlights\<close> (lines 89 to 199), from the state \<open>highlights\<close> to the state
  after the call. The \<open>catch\<close> clears the state.
\<close>

definition calculateHighlights :: "env \<Rightarrow> js_string \<Rightarrow> HighlightRect list \<Rightarrow> HighlightRect list" where
  "calculateHighlights e highlightText highlights =
     (case textLayer e of
        None \<Rightarrow> highlights
      | Some textNodes \<Rightarrow>
          if length textNodes = 0 then highlights
          else
            let (normalizedPdfText, charMap) = buildMap textNodes;
                normalizedQuery = normalizeQuery highlightText
            in
              if length normalizedQuery < 5 then highlights
              else
                let (startIndex, endIndex) = matchSpan normalizedPdfText normalizedQuery in
                if startIndex = - 1 \<or> endIndex = - 1 then []
                else
                  (case (charMapAt charMap startIndex, charMapAt charMap endIndex) of
                     (Some startNodeData, Some endNodeData) \<Rightarrow>
                       (case tryBody e startNodeData endNodeData highlights of
                          Inl err \<Rightarrow> []
                        | Inr highlights' \<Rightarrow> highlights')
                   | _ \<Rightarrow> highlights))"

text \<open>
  The effect itself (lines 82 to 204) once its timer has fired: the guard, then
  \<open>calculateHighlights\<close>. \<open>highlightText\<close> is \<open>None\<close> for \<open>null\<close> and \<open>undefined\<close>.
\<close>

definition highlightEffect :: "env \<Rightarrow> js_string option \<Rightarrow> HighlightRect list \<Rightarrow> HighlightRect list" where
  "highlightEffect e highlightText highlights =
     (case highlightText of
        None \<Rightarrow> []
      | Some text \<Rightarrow>
          if length text = 0 \<or> length text < 5 \<or> \<not> textLayerReady e \<or> \<not> pageContainer e then []
          else calculateHighlights e text highlights)"

subsection \<open>Vocabulary of the statements\<close>

text \<open>The search string occurs in \<open>str\<close> at index \<open>j\<close>.\<close>

definition occursAt :: "'a list \<Rightarrow> 'a list \<Rightarrow> nat \<Rightarrow> bool" where
  "occursAt searchString str j \<longleftrightarrow>
     j + length searchString \<le> length str \<and> take (length searchString) (drop j str) = searchString"

text \<open>The position at which \<open>indexOf\<close> starts to search.\<close>

definition clampPos :: "'a list \<Rightarrow> int \<Rightarrow> nat" where
  "clampPos str position = min (nat (max 0 position)) (length str)"

text \<open>
  The order of the places of a page: first by text node, in tree order, then by offset in
  the node.
\<close>

definition entry_less :: "charMapEntry \<Rightarrow> charMapEntry \<Rightarrow> bool" where
  "entry_less a b \<longleftrightarrow> node a < node b \<or> (node a = node b \<and> index a < index b)"

text \<open>The offsets of the code units of one text node that are kept, counted from \<open>i\<close>.\<close>

fun keptOffsets :: "js_string \<Rightarrow> nat \<Rightarrow> nat list" where
  "keptOffsets [] i = []"
| "keptOffsets (char # rest) i =
     (if isAlphaNumeric char then i # keptOffsets rest (Suc i) else keptOffsets rest (Suc i))"

text \<open>The entries of the text nodes, numbered from \<open>n\<close>.\<close>

fun nodeEntries :: "js_string list \<Rightarrow> nat \<Rightarrow> charMapEntry list" where
  "nodeEntries [] n = []"
| "nodeEntries (str # rest) n =
     map (\<lambda>j. \<lparr>node = n, index = j\<rparr>) (keptOffsets str 0) @ nodeEntries rest (Suc n)"

text \<open>
  The constant \<open>ANCHOR_LEN\<close> and the strings \<open>head\<close> and \<open>tail\<close> of the anchor
  fallback (lines 132, 135 and 136), as functions of the normalized query.
\<close>

definition anchorLen :: "js_string \<Rightarrow> int" where
  "anchorLen normalizedQuery = min 30 (int (length normalizedQuery div 2))"

definition headAnchor :: "js_string \<Rightarrow> js_string" where
  "headAnchor normalizedQuery = substring normalizedQuery 0 (anchorLen normalizedQuery)"

definition tailAnchor :: "js_string \<Rightarrow> js_string" where
  "tailAnchor normalizedQuery =
     substringFrom normalizedQuery (int (length normalizedQuery) - anchorLen normalizedQuery)"

text \<open>The two tests of the loop over \<open>rects\<close> that skip a rectangle (lines 179 and 180).\<close>

definition degenerate :: "DOMRect \<Rightarrow> bool" where
  "degenerate r \<longleftrightarrow> r_width r < 1 \<or> r_height r < 1"

definition fullPage :: "DOMRect \<Rightarrow> DOMRect \<Rightarrow> bool" where
  "fullPage r pageRect \<longleftrightarrow>
     r_width r > r_width pageRect * (9 / 10) \<and> r_height r > r_height pageRect * (9 / 10)"

text \<open>The rectangle pushed for \<open>r\<close> (lines 182 to 187).\<close>

definition pageRelative :: "DOMRect \<Rightarrow> DOMRect \<Rightarrow> HighlightRect" where
  "pageRelative r pageRect =
     \<lparr>h_left = r_left r - r_left pageRect, h_top = r_top r - r_top pageRect,
      h_width = r_width r, h_height = r_height r\<rparr>"

subsection \<open>A page for the examples\<close>

text \<open>
  A browser in which every call succeeds: the text layer holds the given text nodes, every
  range has one rectangle, a line of text, on a page of 600 by 800.
\<close>

definition lineRect :: DOMRect where
  "lineRect = \<lparr>r_left = 50, r_top = 120, r_width = 200, r_height = 14\<rparr>"

definition examplePage :: DOMRect where
  "examplePage = \<lparr>r_left = 40, r_top = 100, r_width = 600, r_height = 800\<rparr>"

definition exampleEnv :: "js_string list \<Rightarrow> env" where
  "exampleEnv textNodes =
     \<lparr>textLayerReady = True, pageContainer = True, textLayer = Some textNodes,
      setStart = (\<lambda>n offset. None), setEnd = (\<lambda>n offset. None),
      getClientRects = (\<lambda>start end. Inr [lineRect]),
      getBoundingClientRect = Inr (Some examplePage),
      scrollIntoView = (\<lambda>n. None)\<rparr>"

text \<open>The text nodes of a page with one sentence broken over two nodes.\<close>

definition foxNodes :: "js_string list" where
  "foxNodes = [utf16 ''The quick brown '', utf16 ''fox jumps over the lazy dog.'']"

text \<open>A rectangle left on the screen by an earlier computation.\<close>

definition staleHighlight :: HighlightRect where
  "staleHighlight = \<lparr>h_left = 10, h_top = 20, h_width = 200, h_height = 14\<rparr>"

section \<open>Facts about \<open>indexOf\<close>\<close>

lemma occursAt_0_Cons:
  "occursAt t (c # cs) 0 \<longleftrightarrow> take (length t) (c # cs) = t"
proof -
  have "length t \<le> Suc (length cs)" if h: "take (length t) (c # cs) = t"
  proof -
    have "length (take (length t) (c # cs)) = length t" by (simp only: h)
    then show ?thesis by simp
  qed
  then show ?thesis by (auto simp: occursAt_def)
qed

lemma occursAt_Suc_Cons: "occursAt t (c # cs) (Suc j) \<longleftrightarrow> occursAt t cs j"
  by (simp add: occursAt_def)

lemma occursAt_Nil: "occursAt t [] j \<longleftrightarrow> t = [] \<and> j = 0"
  by (auto simp: occursAt_def)

lemma occursAt_drop:
  "a \<le> length s \<Longrightarrow> occursAt t (drop a s) j \<longleftrightarrow> occursAt t s (a + j)"
  by (auto simp: occursAt_def add.commute)

lemma scanFrom_found:
  "scanFrom t s k \<noteq> - 1 \<Longrightarrow>
     \<exists>j. scanFrom t s k = int (k + j) \<and> occursAt t s j \<and> (\<forall>i<j. \<not> occursAt t s i)"
proof (induction s arbitrary: k)
  case Nil
  then show ?case by (auto simp: occursAt_Nil split: if_splits)
next
  case (Cons c cs)
  show ?case
  proof (cases "take (length t) (c # cs) = t")
    case True
    then have "scanFrom t (c # cs) k = int (k + 0)" "occursAt t (c # cs) 0"
      by (simp_all add: occursAt_0_Cons)
    then show ?thesis by blast
  next
    case False
    with Cons.prems have "scanFrom t cs (Suc k) \<noteq> - 1" by simp
    from Cons.IH [OF this] obtain j where j:
      "scanFrom t cs (Suc k) = int (Suc k + j)" "occursAt t cs j" "\<forall>i<j. \<not> occursAt t cs i"
      by blast
    have "\<forall>i<Suc j. \<not> occursAt t (c # cs) i"
    proof (intro allI impI)
      fix i assume "i < Suc j"
      then show "\<not> occursAt t (c # cs) i"
        using False j(3) by (cases i) (simp_all add: occursAt_0_Cons occursAt_Suc_Cons)
    qed
    moreover have "scanFrom t (c # cs) k = int (k + Suc j)" using False j(1) by simp
    moreover have "occursAt t (c # cs) (Suc j)" using j(2) by (simp add: occursAt_Suc_Cons)
    ultimately show ?thesis by blast
  qed
qed

lemma scanFrom_notfound: "scanFrom t s k = - 1 \<Longrightarrow> \<not> occursAt t s j"
proof (induction s arbitrary: k j)
  case Nil
  then show ?case by (auto simp: occursAt_Nil split: if_splits)
next
  case (Cons c cs)
  then show ?case
    by (cases j) (auto simp: occursAt_0_Cons occursAt_Suc_Cons split: if_splits)
qed

lemma indexOf_found:
  assumes "indexOf str t p \<noteq> - 1"
  shows "\<exists>j. indexOf str t p = int j \<and> clampPos str p \<le> j \<and> occursAt t str j \<and>
             (\<forall>i. clampPos str p \<le> i \<and> i < j \<longrightarrow> \<not> occursAt t str i)"
proof -
  let ?a = "clampPos str p"
  have a: "?a \<le> length str" by (simp add: clampPos_def)
  from assms have "scanFrom t (drop ?a str) ?a \<noteq> - 1"
    by (simp add: indexOf_def clampPos_def Let_def)
  from scanFrom_found [OF this] obtain j where j:
    "scanFrom t (drop ?a str) ?a = int (?a + j)" "occursAt t (drop ?a str) j"
    "\<forall>i<j. \<not> occursAt t (drop ?a str) i" by blast
  have 1: "indexOf str t p = int (?a + j)" using j(1) by (simp add: indexOf_def clampPos_def Let_def)
  have 2: "occursAt t str (?a + j)" using j(2) a by (simp add: occursAt_drop)
  have 3: "\<forall>i. ?a \<le> i \<and> i < ?a + j \<longrightarrow> \<not> occursAt t str i"
  proof (intro allI impI)
    fix i assume i: "?a \<le> i \<and> i < ?a + j"
    then have "i - ?a < j" by arith
    with j(3) have "\<not> occursAt t (drop ?a str) (i - ?a)" by blast
    then show "\<not> occursAt t str i" using a i by (simp add: occursAt_drop)
  qed
  from 1 2 3 show ?thesis by (intro exI [of _ "?a + j"]) simp
qed

lemma indexOf_notfound:
  assumes "indexOf str t p = - 1" and "clampPos str p \<le> j"
  shows "\<not> occursAt t str j"
proof -
  let ?a = "clampPos str p"
  have a: "?a \<le> length str" by (simp add: clampPos_def)
  from assms have "scanFrom t (drop ?a str) ?a = - 1"
    by (simp add: indexOf_def clampPos_def Let_def)
  from scanFrom_notfound [OF this] have "\<not> occursAt t (drop ?a str) (j - ?a)" .
  then show ?thesis using a assms(2) by (simp add: occursAt_drop)
qed

lemma sublist_occursAt: "sublist t s \<longleftrightarrow> (\<exists>j. occursAt t s j)"
proof
  assume "sublist t s"
  then obtain ps ss where "s = ps @ t @ ss" by (auto simp: sublist_def)
  then have "occursAt t s (length ps)" by (simp add: occursAt_def)
  then show "\<exists>j. occursAt t s j" ..
next
  assume "\<exists>j. occursAt t s j"
  then obtain j where j: "occursAt t s j" ..
  then have "s = take j s @ t @ drop (j + length t) s"
    by (metis append_take_drop_id occursAt_def drop_drop add.commute)
  then show "sublist t s" unfolding sublist_def by blast
qed

section \<open>Facts about the character index\<close>

lemma scanChars_eq:
  "scanChars n cs i (tx, cm) =
     (tx @ normalizeQuery cs, cm @ map (\<lambda>j. \<lparr>node = n, index = j\<rparr>) (keptOffsets cs i))"
  by (induction cs arbitrary: i tx cm) (simp_all add: normalizeQuery_def)

lemma scanNodes_eq:
  "scanNodes nodes n (tx, cm) =
     (tx @ normalizeQuery (concat nodes), cm @ nodeEntries nodes n)"
  by (induction nodes arbitrary: n tx cm) (simp_all add: scanChars_eq normalizeQuery_def)

lemma buildMap_eq: "buildMap textNodes = (normalizeQuery (concat textNodes), nodeEntries textNodes 0)"
  by (simp add: buildMap_def scanNodes_eq)

lemma keptOffsets_bounds: "j \<in> set (keptOffsets cs i) \<Longrightarrow> i \<le> j \<and> j < i + length cs"
  by (induction cs arbitrary: i) (fastforce split: if_splits)+

lemma keptOffsets_sorted: "sorted_wrt (<) (keptOffsets cs i)"
proof (induction cs arbitrary: i)
  case Nil
  show ?case by simp
next
  case (Cons c cs)
  have "\<forall>j\<in>set (keptOffsets cs (Suc i)). i < j"
    using keptOffsets_bounds [of _ cs "Suc i"] by (meson Suc_le_lessD)
  with Cons.IH [of "Suc i"] show ?case by simp
qed

lemma length_keptOffsets: "length (keptOffsets cs i) = length (normalizeQuery cs)"
  by (induction cs arbitrary: i) (simp_all add: normalizeQuery_def)

lemma nodeEntries_bounds:
  "e \<in> set (nodeEntries nodes n) \<Longrightarrow>
     n \<le> node e \<and> node e < n + length nodes \<and> index e < length (nodes ! (node e - n))"
proof (induction nodes arbitrary: n)
  case Nil
  then show ?case by simp
next
  case (Cons str rest)
  from Cons.prems consider
    (here) j where "e = \<lparr>node = n, index = j\<rparr>" "j \<in> set (keptOffsets str 0)"
    | (later) "e \<in> set (nodeEntries rest (Suc n))"
    by auto
  then show ?case
  proof cases
    case here
    then show ?thesis using keptOffsets_bounds [of j str 0] by simp
  next
    case later
    from Cons.IH [OF this] show ?thesis by (auto simp: Suc_diff_le)
  qed
qed

lemma nodeEntries_sorted: "sorted_wrt entry_less (nodeEntries nodes n)"
proof (induction nodes arbitrary: n)
  case Nil
  show ?case by simp
next
  case (Cons str rest)
  have 1: "sorted_wrt entry_less (map (\<lambda>j. \<lparr>node = n, index = j\<rparr>) (keptOffsets str 0))"
    using keptOffsets_sorted [of str 0]
    by (simp add: sorted_wrt_map entry_less_def)
  have 2: "entry_less a b"
    if "a \<in> set (map (\<lambda>j. \<lparr>node = n, index = j\<rparr>) (keptOffsets str 0))"
      and "b \<in> set (nodeEntries rest (Suc n))" for a b
  proof -
    from that(1) have "node a = n" by auto
    moreover from nodeEntries_bounds [OF that(2)] have "Suc n \<le> node b" by simp
    ultimately show ?thesis by (simp add: entry_less_def)
  qed
  from 1 2 Cons.IH [of "Suc n"] show ?case
    by (simp only: nodeEntries.simps sorted_wrt_append) blast
qed

lemma length_nodeEntries: "length (nodeEntries nodes n) = length (normalizeQuery (concat nodes))"
  by (induction nodes arbitrary: n) (simp_all add: length_keptOffsets normalizeQuery_def)

lemma length_buildMap: "length (snd (buildMap textNodes)) = length (fst (buildMap textNodes))"
  by (simp add: buildMap_eq length_nodeEntries)

lemma keptOffsets_chars:
  "list_all2 (\<lambda>c j. i \<le> j \<and> j < i + length cs \<and> c = toLowerCase (cs ! (j - i)))
     (normalizeQuery cs) (keptOffsets cs i)"
proof (induction cs arbitrary: i)
  case Nil
  show ?case by (simp add: normalizeQuery_def)
next
  case (Cons a cs)
  have "list_all2 (\<lambda>c j. i \<le> j \<and> j < i + length (a # cs) \<and> c = toLowerCase ((a # cs) ! (j - i)))
     (normalizeQuery cs) (keptOffsets cs (Suc i))"
    by (rule list_all2_mono [OF Cons.IH [of "Suc i"]]) (auto simp: Suc_diff_le nth_Cons')
  then show ?case by (simp add: normalizeQuery_def)
qed

lemma nodeEntries_chars:
  "list_all2 (\<lambda>c e. n \<le> node e \<and> c = toLowerCase (nodes ! (node e - n) ! index e))
     (normalizeQuery (concat nodes)) (nodeEntries nodes n)"
proof (induction nodes arbitrary: n)
  case Nil
  show ?case by (simp add: normalizeQuery_def)
next
  case (Cons str rest)
  have 1: "list_all2 (\<lambda>c e. n \<le> node e \<and> c = toLowerCase ((str # rest) ! (node e - n) ! index e))
     (normalizeQuery str) (map (\<lambda>j. \<lparr>node = n, index = j\<rparr>) (keptOffsets str 0))"
    unfolding list_all2_map2
    by (rule list_all2_mono [OF keptOffsets_chars [of 0 str]]) simp
  have 2: "list_all2 (\<lambda>c e. n \<le> node e \<and> c = toLowerCase ((str # rest) ! (node e - n) ! index e))
     (normalizeQuery (concat rest)) (nodeEntries rest (Suc n))"
    by (rule list_all2_mono [OF Cons.IH [of "Suc n"]]) (auto simp: Suc_diff_le)
  have "normalizeQuery (concat (str # rest)) = normalizeQuery str @ normalizeQuery (concat rest)"
    by (simp add: normalizeQuery_def)
  with 1 2 show ?case by (simp add: list_all2_appendI)
qed

lemma buildMap_chars:
  assumes "k < length (snd (buildMap textNodes))"
  shows "fst (buildMap textNodes) ! k =
         toLowerCase (textNodes ! node (snd (buildMap textNodes) ! k) ! index (snd (buildMap textNodes) ! k))"
  using nodeEntries_chars [of 0 textNodes] assms
  by (simp add: buildMap_eq list_all2_conv_all_nth)

section \<open>Facts about the matching\<close>

lemma matchSpan_exact:
  "indexOf P Q 0 \<noteq> - 1 \<Longrightarrow>
     matchSpan P Q = (indexOf P Q 0, indexOf P Q 0 + int (length Q) - 1)"
  by (simp add: matchSpan_def Let_def)

lemma matchSpan_anchor:
  "indexOf P Q 0 = - 1 \<Longrightarrow>
     matchSpan P Q =
       (if anchorLen Q > 5 \<and> indexOf P (headAnchor Q) 0 \<noteq> - 1 \<and>
           indexOf P (tailAnchor Q) (indexOf P (headAnchor Q) 0 + anchorLen Q) \<noteq> - 1 \<and>
           (of_int (indexOf P (tailAnchor Q) (indexOf P (headAnchor Q) 0 + anchorLen Q)
                     - indexOf P (headAnchor Q) 0) :: rat) < of_nat (length Q) * (3 / 2)
        then (indexOf P (headAnchor Q) 0,
              indexOf P (tailAnchor Q) (indexOf P (headAnchor Q) 0 + anchorLen Q)
                + int (length (tailAnchor Q)) - 1)
        else (- 1, - 1))"
  by (simp add: matchSpan_def Let_def anchorLen_def headAnchor_def tailAnchor_def)

lemma anchorLen_bounds: "0 \<le> anchorLen Q \<and> anchorLen Q \<le> int (length Q)"
  by (simp add: anchorLen_def)

lemma anchorLen_nat: "nat (anchorLen Q) = min 30 (length Q div 2)"
  by (simp add: anchorLen_def)

lemma anchorLen_int: "anchorLen Q = int (min 30 (length Q div 2))"
  using anchorLen_nat [of Q] anchorLen_bounds [of Q] by linarith

lemma length_headAnchor: "length (headAnchor Q) = min 30 (length Q div 2)"
  using anchorLen_bounds [of Q] anchorLen_nat [of Q]
  by (simp add: headAnchor_def substring_def Let_def)

lemma length_tailAnchor: "length (tailAnchor Q) = min 30 (length Q div 2)"
  using anchorLen_bounds [of Q] anchorLen_nat [of Q]
  by (simp add: tailAnchor_def substringFrom_def substring_def Let_def nat_diff_distrib)

lemma headAnchor_take: "headAnchor Q = take (min 30 (length Q div 2)) Q"
  using anchorLen_bounds [of Q] anchorLen_nat [of Q]
  by (simp add: headAnchor_def substring_def Let_def)

lemma tailAnchor_drop: "tailAnchor Q = drop (length Q - min 30 (length Q div 2)) Q"
  using anchorLen_bounds [of Q] anchorLen_nat [of Q]
  by (simp add: tailAnchor_def substringFrom_def substring_def Let_def nat_diff_distrib)

lemma clampPos_0: "clampPos str 0 = 0"
  by (simp add: clampPos_def)

lemma clampPos_nonneg: "0 \<le> p \<Longrightarrow> p \<le> int (length str) \<Longrightarrow> int (clampPos str p) = p"
  by (simp add: clampPos_def)

lemma exact_found:
  assumes "indexOf P Q 0 \<noteq> - 1"
  shows "\<exists>j. indexOf P Q 0 = int j \<and> occursAt Q P j \<and> (\<forall>i<j. \<not> occursAt Q P i)"
  using indexOf_found [OF assms] by (auto simp: clampPos_0)

lemma exact_notfound: "indexOf P Q 0 = - 1 \<Longrightarrow> \<not> sublist Q P"
  using indexOf_notfound [of P Q 0] by (simp add: clampPos_0 sublist_occursAt)

lemma exact_iff: "indexOf P Q 0 \<noteq> - 1 \<longleftrightarrow> sublist Q P"
proof
  assume "indexOf P Q 0 \<noteq> - 1"
  from exact_found [OF this] show "sublist Q P" by (auto simp: sublist_occursAt)
next
  assume "sublist Q P"
  then show "indexOf P Q 0 \<noteq> - 1" using exact_notfound by blast
qed

text \<open>What the anchor fallback has found when it accepts.\<close>

lemma tail_search_found:
  assumes h: "indexOf P (headAnchor Q) 0 = int jh" "occursAt (headAnchor Q) P jh"
    and t: "indexOf P (tailAnchor Q) (int jh + anchorLen Q) \<noteq> - 1"
  shows "\<exists>jt. indexOf P (tailAnchor Q) (int jh + anchorLen Q) = int jt \<and>
              jh + min 30 (length Q div 2) \<le> jt \<and> occursAt (tailAnchor Q) P jt \<and>
              (\<forall>i.  jh + min 30 (length Q div 2) \<le> i \<and> i < jt \<longrightarrow> \<not> occursAt (tailAnchor Q) P i)"
proof -
  have "jh + min 30 (length Q div 2) \<le> length P"
    using h(2) by (simp add: occursAt_def length_headAnchor)
  moreover have "int jh + anchorLen Q = int (jh + min 30 (length Q div 2))"
    using anchorLen_nat [of Q] anchorLen_bounds [of Q] by linarith
  ultimately have c: "clampPos P (int jh + anchorLen Q) = jh + min 30 (length Q div 2)"
    by (simp add: clampPos_def)
  from indexOf_found [OF t] show ?thesis by (simp add: c)
qed

lemma matchSpan_in_bounds:
  assumes m: "matchSpan P Q = (s, e)" and s: "s \<noteq> - 1" and e: "e \<noteq> - 1"
  shows "0 \<le> s \<and> s \<le> e \<and> e < int (length P)"
proof (cases "indexOf P Q 0 = - 1")
  case False
  from exact_found [OF False] obtain j where j:
    "indexOf P Q 0 = int j" "occursAt Q P j" "\<forall>i<j. \<not> occursAt Q P i" by blast
  from m False j(1) have se: "s = int j" "e = int j + int (length Q) - 1"
    by (simp_all add: matchSpan_exact)
  have "length Q \<noteq> 0"
  proof
    assume "length Q = 0"
    then have "occursAt Q P 0" by (simp add: occursAt_def)
    with j(3) have "j = 0" by (cases j) auto
    with se \<open>length Q = 0\<close> e show False by simp
  qed
  moreover have "j + length Q \<le> length P" using j(2) by (simp add: occursAt_def)
  ultimately show ?thesis using se by linarith
next
  case True
  let ?h = "indexOf P (headAnchor Q) 0"
  let ?t = "indexOf P (tailAnchor Q) (?h + anchorLen Q)"
  from m s True have c: "anchorLen Q > 5" "?h \<noteq> - 1" "?t \<noteq> - 1"
    and se: "s = ?h" "e = ?t + int (length (tailAnchor Q)) - 1"
    by (auto simp: matchSpan_anchor split: if_splits)
  from exact_found [OF c(2)] obtain jh where jh:
    "?h = int jh" "occursAt (headAnchor Q) P jh" by blast
  from tail_search_found [OF jh] c(3) jh(1) obtain jt where jt:
    "?t = int jt" "jh + min 30 (length Q div 2) \<le> jt" "occursAt (tailAnchor Q) P jt"
    by auto
  have "jt + min 30 (length Q div 2) \<le> length P"
    using jt(3) by (simp add: occursAt_def length_tailAnchor)
  moreover have "5 < min 30 (length Q div 2)"
    using c(1) anchorLen_nat [of Q] by linarith
  ultimately show ?thesis using se jh(1) jt(1,2) by (simp add: length_tailAnchor)
qed

section \<open>Facts about the computation\<close>

lemma calc_reach:
  assumes "textLayer e = Some nodes"
    and "5 \<le> length (normalizeQuery text)"
    and "matchSpan (fst (buildMap nodes)) (normalizeQuery text) = (s, en)"
    and "s \<noteq> - 1" and "en \<noteq> - 1"
  shows "calculateHighlights e text h =
           (case tryBody e (snd (buildMap nodes) ! nat s) (snd (buildMap nodes) ! nat en) h of
              Inl err \<Rightarrow> [] | Inr h' \<Rightarrow> h')"
proof -
  from matchSpan_in_bounds [OF assms(3,4,5)]
  have b: "0 \<le> s" "s \<le> en" "en < int (length (fst (buildMap nodes)))" by simp_all
  then have "fst (buildMap nodes) \<noteq> []" by auto
  then have "nodes \<noteq> []" by (auto simp: buildMap_def)
  moreover have "charMapAt (snd (buildMap nodes)) s = Some (snd (buildMap nodes) ! nat s)"
    "charMapAt (snd (buildMap nodes)) en = Some (snd (buildMap nodes) ! nat en)"
    using b by (simp_all add: charMapAt_def length_buildMap)
  ultimately show ?thesis
    using assms by (simp add: calculateHighlights_def split_def Let_def)
qed

lemma calc_no_match:
  assumes "textLayer e = Some nodes" and "nodes \<noteq> []"
    and "5 \<le> length (normalizeQuery text)"
    and "matchSpan (fst (buildMap nodes)) (normalizeQuery text) = (s, en)"
    and "s = - 1 \<or> en = - 1"
  shows "calculateHighlights e text h = []"
  using assms by (auto simp: calculateHighlights_def split_def Let_def)

lemma collectRects_eq:
  "collectRects rects pageRect acc =
     acc @ map (\<lambda>r. pageRelative r pageRect)
              (filter (\<lambda>r. \<not> degenerate r \<and> \<not> fullPage r pageRect) rects)"
  by (induction rects arbitrary: acc) (simp_all add: degenerate_def fullPage_def pageRelative_def)

lemma collectRects_nonempty:
  "\<exists>r \<in> set rects. \<not> degenerate r \<and> \<not> fullPage r pageRect \<Longrightarrow>
     collectRects rects pageRect [] \<noteq> []"
  by (auto simp: collectRects_eq filter_empty_conv)

lemma collectRects_sizes:
  "x \<in> set (collectRects rects pageRect []) \<Longrightarrow>
     1 \<le> h_width x \<and> 1 \<le> h_height x \<and>
     \<not> (h_width x > r_width pageRect * (9 / 10) \<and> h_height x > r_height pageRect * (9 / 10))"
  by (auto simp: collectRects_eq degenerate_def fullPage_def pageRelative_def)

lemma length_normalizeQuery: "length (normalizeQuery text) \<le> length text"
  by (simp add: normalizeQuery_def)

lemma tryBody_success:
  assumes "setStart e (node sd) (index sd) = None"
    and "setEnd e (node ed) (index ed + 1) = None"
    and "getClientRects e (node sd, index sd) (node ed, index ed + 1) = Inr rects"
    and "getBoundingClientRect e = Inr (Some pageRect)"
    and "collectRects rects pageRect [] \<noteq> [] \<longrightarrow> scrollIntoView e (node sd) = None"
  shows "tryBody e sd ed h = Inr (collectRects rects pageRect [])"
  using assms by (simp add: tryBody_def Let_def)

lemma tryBody_throws:
  assumes "setStart e (node sd) (index sd) = Some err
           \<or> setEnd e (node ed) (index ed + 1) = Some err
           \<or> getClientRects e (node sd, index sd) (node ed, index ed + 1) = Inl err
           \<or> getBoundingClientRect e = Inl err"
  shows "\<exists>err'. tryBody e sd ed h = Inl err'"
  using assms by (auto simp: tryBody_def Let_def split: option.splits sum.splits)

lemma tryBody_no_pageRect:
  assumes "setStart e (node sd) (index sd) = None"
    and "setEnd e (node ed) (index ed + 1) = None"
    and "getClientRects e (node sd, index sd) (node ed, index ed + 1) = Inr rects"
    and "getBoundingClientRect e = Inr None"
  shows "tryBody e sd ed h = Inr h"
  using assms by (simp add: tryBody_def)

lemma guard_passes:
  "textLayerReady e \<Longrightarrow> pageContainer e \<Longrightarrow> 5 \<le> length text \<Longrightarrow>
     highlightEffect e (Some text) h = calculateHighlights e text h"
  by (auto simp: highlightEffect_def)





text \<open>The equations that run the matching and the whole effect on a concrete page.\<close>

lemmas match_equations = matchSpan_def indexOf_def utf16_def Let_def substring_def substringFrom_def
  anchorLen_def headAnchor_def tailAnchor_def

lemmas effect_equations = highlightEffect_def calculateHighlights_def tryBody_def exampleEnv_def
  buildMap_def normalizeQuery_def isAlphaNumeric_def toLowerCase_def charMapAt_def
  lineRect_def examplePage_def staleHighlight_def foxNodes_def split_def

section \<open>The claims\<close>

text \<open>
  Claim C1, as amended. In the anchor fallback (the exact search has failed and the anchor
  length exceeds 5), when the head anchor occurs in the normalized page text at
  \<open>headIndex\<close> and \<open>tailIndex\<close> is the result of searching the tail anchor from the
  end of the head match on, the span from \<open>headIndex\<close> to
  \<open>tailIndex + tailLength - 1\<close> is accepted if and only if the tail anchor is found, which
  puts it at or after the end of the head match, and the distance from the start of the
  head match to the start of the tail match is strictly less than 1.5 times the length of
  the normalized query. Otherwise no match is produced.
\<close>

theorem anchor_fallback_accepts_iff:
  assumes "indexOf P Q 0 = - 1" and "5 < anchorLen Q"
    and "headIndex = indexOf P (headAnchor Q) 0" and "headIndex \<noteq> - 1"
    and "tailIndex = indexOf P (tailAnchor Q) (headIndex + anchorLen Q)"
  shows "(matchSpan P Q = (headIndex, tailIndex + int (length (tailAnchor Q)) - 1) \<longleftrightarrow>
            tailIndex \<noteq> - 1 \<and> headIndex + int (length (headAnchor Q)) \<le> tailIndex \<and>
            (of_int (tailIndex - headIndex) :: rat) < of_nat (length Q) * (3 / 2)) \<and>
         (matchSpan P Q \<noteq> (headIndex, tailIndex + int (length (tailAnchor Q)) - 1) \<longrightarrow>
            matchSpan P Q = (- 1, - 1))"
proof -
  let ?acc = "tailIndex \<noteq> - 1 \<and>
     (of_int (tailIndex - headIndex) :: rat) < of_nat (length Q) * (3 / 2)"
  have m: "matchSpan P Q =
      (if ?acc then (headIndex, tailIndex + int (length (tailAnchor Q)) - 1) else (- 1, - 1))"
    using assms by (simp add: matchSpan_anchor)
  have after: "headIndex + int (length (headAnchor Q)) \<le> tailIndex" if "tailIndex \<noteq> - 1"
  proof -
    from exact_found [of P "headAnchor Q"] assms(3,4) obtain jh where jh:
      "indexOf P (headAnchor Q) 0 = int jh" "occursAt (headAnchor Q) P jh" by auto
    from that assms(3,5) jh(1)
    have "indexOf P (tailAnchor Q) (int jh + anchorLen Q) \<noteq> - 1" by simp
    from tail_search_found [OF jh this] obtain jt where
      "indexOf P (tailAnchor Q) (int jh + anchorLen Q) = int jt"
      "jh + min 30 (length Q div 2) \<le> jt" by blast
    then show ?thesis using assms(3,5) jh(1) by (simp add: length_headAnchor)
  qed
  show ?thesis
  proof (cases ?acc)
    case True
    then have "matchSpan P Q = (headIndex, tailIndex + int (length (tailAnchor Q)) - 1)"
      unfolding m by (rule if_P)
    moreover from True after have "headIndex + int (length (headAnchor Q)) \<le> tailIndex"
      by blast
    ultimately show ?thesis using True by blast
  next
    case False
    then have "matchSpan P Q = (- 1, - 1)"
      unfolding m by (rule if_not_P)
    moreover have "(- 1, - 1) \<noteq> (headIndex, tailIndex + int (length (tailAnchor Q)) - 1)"
      using assms(4) by simp
    ultimately show ?thesis using False by metis
  qed
qed

text \<open>
  At a query of 12 code units, the span is accepted with the tail anchor starting 17 after
  the head, and refused with the tail anchor starting 18 after it.
\<close>

theorem anchor_fallback_accepts_iff_witness:
  "indexOf (utf16 ''abcdefzzzzzzzzzzzghijkl'') (utf16 ''abcdefghijkl'') 0 = - 1 \<and>
   5 < anchorLen (utf16 ''abcdefghijkl'') \<and>
   indexOf (utf16 ''abcdefzzzzzzzzzzzghijkl'') (headAnchor (utf16 ''abcdefghijkl'')) 0 = 0 \<and>
   indexOf (utf16 ''abcdefzzzzzzzzzzzghijkl'') (tailAnchor (utf16 ''abcdefghijkl''))
     (0 + anchorLen (utf16 ''abcdefghijkl'')) = 17 \<and>
   (of_int (17 - 0) :: rat) < of_nat (length (utf16 ''abcdefghijkl'')) * (3 / 2) \<and>
   matchSpan (utf16 ''abcdefzzzzzzzzzzzghijkl'') (utf16 ''abcdefghijkl'')
     = (0, 17 + int (length (tailAnchor (utf16 ''abcdefghijkl''))) - 1) \<and>
   indexOf (utf16 ''abcdefzzzzzzzzzzzzghijkl'') (utf16 ''abcdefghijkl'') 0 = - 1 \<and>
   indexOf (utf16 ''abcdefzzzzzzzzzzzzghijkl'') (headAnchor (utf16 ''abcdefghijkl'')) 0 = 0 \<and>
   indexOf (utf16 ''abcdefzzzzzzzzzzzzghijkl'') (tailAnchor (utf16 ''abcdefghijkl''))
     (0 + anchorLen (utf16 ''abcdefghijkl'')) = 18 \<and>
   \<not> (of_int (18 - 0) :: rat) < of_nat (length (utf16 ''abcdefghijkl'')) * (3 / 2) \<and>
   matchSpan (utf16 ''abcdefzzzzzzzzzzzzghijkl'') (utf16 ''abcdefghijkl'') = (- 1, - 1)"
proof -
  let ?P = "utf16 ''abcdefzzzzzzzzzzzghijkl''"
  let ?P' = "utf16 ''abcdefzzzzzzzzzzzzghijkl''"
  let ?Q = "utf16 ''abcdefghijkl''"
  have x: "indexOf ?P ?Q 0 = - 1" "indexOf ?P' ?Q 0 = - 1" by (simp_all add: match_equations)
  have a: "5 < anchorLen ?Q" by (simp add: match_equations)
  have h: "0 = indexOf ?P (headAnchor ?Q) 0" "0 = indexOf ?P' (headAnchor ?Q) 0"
    by (simp_all add: match_equations)
  have t: "17 = indexOf ?P (tailAnchor ?Q) (0 + anchorLen ?Q)"
    "18 = indexOf ?P' (tailAnchor ?Q) (0 + anchorLen ?Q)"
    by (simp_all add: match_equations)
  have l: "length (tailAnchor ?Q) = 6" "length (headAnchor ?Q) = 6" "length ?Q = 12"
    by (simp_all add: match_equations)
  have z: "(0::int) \<noteq> - 1" by simp
  from anchor_fallback_accepts_iff [OF x(1) a h(1) z t(1)]
       anchor_fallback_accepts_iff [OF x(2) a h(2) z t(2)]
  have "matchSpan ?P ?Q = (0, 17 + int (length (tailAnchor ?Q)) - 1)"
    "matchSpan ?P' ?Q = (- 1, - 1)"
    by (simp_all add: l)
  with x a h t l show ?thesis by simp
qed

text \<open>
  The claim as first stated measures the distance to the end of the tail match and allows
  equality. Here the span from 0 to 22 is accepted, although 22 exceeds 1.5 times 12.
\<close>

theorem anchor_span_end_distance_counterexample:
  "indexOf (utf16 ''abcdefzzzzzzzzzzzghijkl'') (utf16 ''abcdefghijkl'') 0 = - 1 \<and>
   indexOf (utf16 ''abcdefzzzzzzzzzzzghijkl'') (headAnchor (utf16 ''abcdefghijkl'')) 0 = 0 \<and>
   indexOf (utf16 ''abcdefzzzzzzzzzzzghijkl'') (tailAnchor (utf16 ''abcdefghijkl''))
     (0 + anchorLen (utf16 ''abcdefghijkl'')) = 17 \<and>
   length (tailAnchor (utf16 ''abcdefghijkl'')) = 6 \<and>
   matchSpan (utf16 ''abcdefzzzzzzzzzzzghijkl'') (utf16 ''abcdefghijkl'') = (0, 17 + 6 - 1) \<and>
   \<not> (of_int ((17 + 6 - 1) - 0) :: rat) \<le> of_nat (length (utf16 ''abcdefghijkl'')) * (3 / 2)"
  by (simp add: match_equations)




text \<open>
  Claim C3 says that a query shorter than 5 code units after normalization gives the empty
  list of rectangles. The guard of the effect does that for a query that is null, empty or
  shorter than 5 code units (line 85), and so does the path without a match (line 156). For
  a query of 5 code units or more whose normalized form is shorter than 5, line 121 returns
  without a call of \<open>setHighlights\<close>: the rectangle of an earlier query stays.
\<close>

theorem short_normalized_query_keeps_stale_highlights:
  "length (utf16 ''a-b-c-d'') = 7 \<and> normalizeQuery (utf16 ''a-b-c-d'') = utf16 ''abcd'' \<and>
   highlightEffect (exampleEnv [utf16 ''hello world'']) (Some (utf16 ''a-b-c-d'')) [staleHighlight]
     = [staleHighlight] \<and>
   [staleHighlight] \<noteq> []"
  by (simp add: highlightEffect_def calculateHighlights_def exampleEnv_def utf16_def
      normalizeQuery_def isAlphaNumeric_def toLowerCase_def split_def)

text \<open>So the effect does not return the empty list there.\<close>

theorem short_normalized_query_keeps_stale_highlights_witness:
  "highlightEffect (exampleEnv [utf16 ''hello world'']) (Some (utf16 ''a-b-c-d'')) [staleHighlight]
     \<noteq> []"
  using short_normalized_query_keeps_stale_highlights by simp

text \<open>
  Claim C4. When the text layer is ready and the normalized query has at least 5 code units
  and is a contiguous part of the normalized page text, the exact search finds its first
  occurrence \<open>startIndex\<close> and the span is \<open>startIndex\<close> to
  \<open>startIndex + queryLength - 1\<close>. When moreover the browser builds the range and gives
  its rectangles and the rectangle of the page without an exception, and one rectangle of
  the range is neither degenerate nor full-page, the effect returns the collected rectangles:
  the list is not empty and each of its rectangles has width and height of at least 1. For
  the page text \<open>thequickbrownfoxjumpsoverthelazydog\<close> and the query
  \<open>brownfoxjumps\<close> the span is 8 to 20.
\<close>

theorem exact_match_is_highlighted:
  assumes "textLayerReady e" and "pageContainer e" and "textLayer e = Some textNodes"
    and "P = fst (buildMap textNodes)" and "charMap = snd (buildMap textNodes)"
    and "Q = normalizeQuery highlightText"
    and "5 \<le> length Q" and "sublist Q P"
  shows "(\<exists>startIndex.
      occursAt Q P startIndex \<and> (\<forall>i < startIndex. \<not> occursAt Q P i) \<and>
      matchSpan P Q = (int startIndex, int startIndex + int (length Q) - 1) \<and>
      (\<forall>rects pageRect.
         setStart e (node (charMap ! startIndex)) (index (charMap ! startIndex)) = None \<and>
         setEnd e (node (charMap ! (startIndex + length Q - 1)))
                  (index (charMap ! (startIndex + length Q - 1)) + 1) = None \<and>
         getClientRects e (node (charMap ! startIndex), index (charMap ! startIndex))
                          (node (charMap ! (startIndex + length Q - 1)),
                           index (charMap ! (startIndex + length Q - 1)) + 1) = Inr rects \<and>
         getBoundingClientRect e = Inr (Some pageRect) \<and>
         (\<exists>r \<in> set rects. \<not> degenerate r \<and> \<not> fullPage r pageRect) \<and>
         scrollIntoView e (node (charMap ! startIndex)) = None \<longrightarrow>
           highlightEffect e (Some highlightText) highlights = collectRects rects pageRect [] \<and>
           highlightEffect e (Some highlightText) highlights \<noteq> [] \<and>
           (\<forall>x \<in> set (highlightEffect e (Some highlightText) highlights).
              1 \<le> h_width x \<and> 1 \<le> h_height x))) \<and>
    matchSpan (utf16 ''thequickbrownfoxjumpsoverthelazydog'') (utf16 ''brownfoxjumps'') = (8, 20)"
proof -
  from assms(8) have f: "indexOf P Q 0 \<noteq> - 1" by (simp add: exact_iff)
  from exact_found [OF f] obtain j where j:
    "indexOf P Q 0 = int j" "occursAt Q P j" "\<forall>i<j. \<not> occursAt Q P i" by blast
  have m: "matchSpan P Q = (int j, int j + int (length Q) - 1)"
    using matchSpan_exact [OF f] j(1) by simp
  have n: "nat (int j) = j" "nat (int j + int (length Q) - 1) = j + length Q - 1"
    using assms(7) by simp_all
  have g: "highlightEffect e (Some highlightText) highlights =
           calculateHighlights e highlightText highlights"
    using assms(1,2,6,7) length_normalizeQuery [of highlightText]
    by (intro guard_passes) simp_all
  have c: "calculateHighlights e highlightText highlights =
       (case tryBody e (charMap ! j) (charMap ! (j + length Q - 1)) highlights of
          Inl err \<Rightarrow> [] | Inr h' \<Rightarrow> h')"
    using calc_reach [of e textNodes highlightText "int j" "int j + int (length Q) - 1" highlights]
      assms(3,4,5,6,7) m n by simp
  have r: "highlightEffect e (Some highlightText) highlights = collectRects rects pageRect [] \<and>
           highlightEffect e (Some highlightText) highlights \<noteq> [] \<and>
           (\<forall>x \<in> set (highlightEffect e (Some highlightText) highlights).
              1 \<le> h_width x \<and> 1 \<le> h_height x)"
    if "setStart e (node (charMap ! j)) (index (charMap ! j)) = None"
      and "setEnd e (node (charMap ! (j + length Q - 1)))
                  (index (charMap ! (j + length Q - 1)) + 1) = None"
      and "getClientRects e (node (charMap ! j), index (charMap ! j))
                          (node (charMap ! (j + length Q - 1)),
                           index (charMap ! (j + length Q - 1)) + 1) = Inr rects"
      and "getBoundingClientRect e = Inr (Some pageRect)"
      and "\<exists>r \<in> set rects. \<not> degenerate r \<and> \<not> fullPage r pageRect"
      and "scrollIntoView e (node (charMap ! j)) = None"
    for rects pageRect
  proof -
    have "tryBody e (charMap ! j) (charMap ! (j + length Q - 1)) highlights =
          Inr (collectRects rects pageRect [])"
      using that by (intro tryBody_success) simp_all
    then have "highlightEffect e (Some highlightText) highlights = collectRects rects pageRect []"
      by (simp add: g c)
    then show ?thesis
      using collectRects_nonempty [OF that(5)] collectRects_sizes [of _ rects pageRect] by simp
  qed
  have ex: "matchSpan (utf16 ''thequickbrownfoxjumpsoverthelazydog'') (utf16 ''brownfoxjumps'') = (8, 20)"
    by (simp add: matchSpan_def indexOf_def utf16_def Let_def)
  from j(2,3) m r ex show ?thesis by blast
qed

theorem exact_match_is_highlighted_witness:
  "fst (buildMap foxNodes) = utf16 ''thequickbrownfoxjumpsoverthelazydog'' \<and>
   normalizeQuery (utf16 ''Brown fox, jumps'') = utf16 ''brownfoxjumps'' \<and>
   sublist (utf16 ''brownfoxjumps'') (utf16 ''thequickbrownfoxjumpsoverthelazydog'') \<and>
   matchSpan (fst (buildMap foxNodes)) (normalizeQuery (utf16 ''Brown fox, jumps'')) = (8, 20) \<and>
   highlightEffect (exampleEnv foxNodes) (Some (utf16 ''Brown fox, jumps'')) []
     = [\<lparr>h_left = 10, h_top = 20, h_width = 200, h_height = 14\<rparr>]"
proof -
  let ?e = "exampleEnv foxNodes"
  let ?q = "utf16 ''Brown fox, jumps''"
  have P: "fst (buildMap foxNodes) = utf16 ''thequickbrownfoxjumpsoverthelazydog''"
    by (simp add: effect_equations utf16_def)
  have Q: "normalizeQuery ?q = utf16 ''brownfoxjumps''"
    by (simp add: effect_equations utf16_def)
  have m: "matchSpan (utf16 ''thequickbrownfoxjumpsoverthelazydog'') (utf16 ''brownfoxjumps'') = (8, 20)"
    by (simp add: match_equations)
  have "indexOf (utf16 ''thequickbrownfoxjumpsoverthelazydog'') (utf16 ''brownfoxjumps'') 0 \<noteq> - 1"
    by (simp add: match_equations)
  then have s: "sublist (utf16 ''brownfoxjumps'') (utf16 ''thequickbrownfoxjumpsoverthelazydog'')"
    by (simp add: exact_iff)
  have h1: "textLayerReady ?e" "pageContainer ?e" "textLayer ?e = Some foxNodes"
    by (simp_all add: exampleEnv_def)
  have h7: "5 \<le> length (normalizeQuery ?q)" by (simp add: Q) (simp add: utf16_def)
  have h8: "sublist (normalizeQuery ?q) (fst (buildMap foxNodes))" using s by (simp add: P Q)
  from exact_match_is_highlighted [OF h1 refl refl refl h7 h8, of "[]"]
  obtain startIndex where r: "\<forall>rects pageRect.
         setStart ?e (node (snd (buildMap foxNodes) ! startIndex))
                     (index (snd (buildMap foxNodes) ! startIndex)) = None \<and>
         setEnd ?e (node (snd (buildMap foxNodes) ! (startIndex + length (normalizeQuery ?q) - 1)))
                  (index (snd (buildMap foxNodes) ! (startIndex + length (normalizeQuery ?q) - 1)) + 1) = None \<and>
         getClientRects ?e (node (snd (buildMap foxNodes) ! startIndex), index (snd (buildMap foxNodes) ! startIndex))
                          (node (snd (buildMap foxNodes) ! (startIndex + length (normalizeQuery ?q) - 1)),
                           index (snd (buildMap foxNodes) ! (startIndex + length (normalizeQuery ?q) - 1)) + 1) = Inr rects \<and>
         getBoundingClientRect ?e = Inr (Some pageRect) \<and>
         (\<exists>r \<in> set rects. \<not> degenerate r \<and> \<not> fullPage r pageRect) \<and>
         scrollIntoView ?e (node (snd (buildMap foxNodes) ! startIndex)) = None \<longrightarrow>
           highlightEffect ?e (Some ?q) [] = collectRects rects pageRect []"
    by blast
  have "highlightEffect ?e (Some ?q) [] = collectRects [lineRect] examplePage []"
    by (rule r [rule_format])
       (simp add: exampleEnv_def degenerate_def fullPage_def lineRect_def examplePage_def)
  then have "highlightEffect ?e (Some ?q) [] = [\<lparr>h_left = 10, h_top = 20, h_width = 200, h_height = 14\<rparr>]"
    by (simp add: lineRect_def examplePage_def)
  with P Q s m show ?thesis by simp
qed

text \<open>
  Claim C5. When the exact search succeeds the span is the exact one, whatever the anchors
  are. When it fails and \<open>min(30, floor(queryLength / 2))\<close> is at most 5, there is no
  match, and the computation clears the rectangles. When it fails and that number exceeds 5,
  the result is that of the search for the two anchors: the first and the last code units of
  the query, each of that length.
\<close>

theorem anchor_fallback_guard:
  "(indexOf P Q 0 \<noteq> - 1 \<longrightarrow>
      matchSpan P Q = (indexOf P Q 0, indexOf P Q 0 + int (length Q) - 1)) \<and>
   (indexOf P Q 0 = - 1 \<and> min 30 (length Q div 2) \<le> 5 \<longrightarrow> matchSpan P Q = (- 1, - 1)) \<and>
   (indexOf P Q 0 = - 1 \<and> 5 < min 30 (length Q div 2) \<longrightarrow>
      length (take (min 30 (length Q div 2)) Q) = min 30 (length Q div 2) \<and>
      length (drop (length Q - min 30 (length Q div 2)) Q) = min 30 (length Q div 2) \<and>
      matchSpan P Q =
        (let headIndex = indexOf P (take (min 30 (length Q div 2)) Q) 0;
             tailIndex = indexOf P (drop (length Q - min 30 (length Q div 2)) Q)
                           (headIndex + int (min 30 (length Q div 2)))
         in if headIndex \<noteq> - 1 \<and> tailIndex \<noteq> - 1 \<and>
               (of_int (tailIndex - headIndex) :: rat) < of_nat (length Q) * (3 / 2)
            then (headIndex, tailIndex + int (min 30 (length Q div 2)) - 1)
            else (- 1, - 1))) \<and>
   (textLayer e = Some textNodes \<and> textNodes \<noteq> [] \<and> P = fst (buildMap textNodes) \<and>
    Q = normalizeQuery highlightText \<and> 5 \<le> length Q \<and>
    indexOf P Q 0 = - 1 \<and> min 30 (length Q div 2) \<le> 5 \<longrightarrow>
      calculateHighlights e highlightText highlights = [])"
proof -
  have a: "anchorLen Q = int (min 30 (length Q div 2))"
    using anchorLen_nat [of Q] anchorLen_bounds [of Q] by linarith
  have 1: "indexOf P Q 0 \<noteq> - 1 \<longrightarrow>
      matchSpan P Q = (indexOf P Q 0, indexOf P Q 0 + int (length Q) - 1)"
    by (simp add: matchSpan_exact)
  have 2: "matchSpan P Q = (- 1, - 1)" if "indexOf P Q 0 = - 1" "min 30 (length Q div 2) \<le> 5"
  proof -
    from that(2) a have "\<not> anchorLen Q > 5" by linarith
    then show ?thesis by (simp only: matchSpan_anchor [OF that(1)] simp_thms if_False)
  qed
  have 3: "length (take (min 30 (length Q div 2)) Q) = min 30 (length Q div 2)"
    "length (drop (length Q - min 30 (length Q div 2)) Q) = min 30 (length Q div 2)"
    by simp_all
  have 4: "matchSpan P Q =
        (let headIndex = indexOf P (take (min 30 (length Q div 2)) Q) 0;
             tailIndex = indexOf P (drop (length Q - min 30 (length Q div 2)) Q)
                           (headIndex + int (min 30 (length Q div 2)))
         in if headIndex \<noteq> - 1 \<and> tailIndex \<noteq> - 1 \<and>
               (of_int (tailIndex - headIndex) :: rat) < of_nat (length Q) * (3 / 2)
            then (headIndex, tailIndex + int (min 30 (length Q div 2)) - 1)
            else (- 1, - 1))"
    if "indexOf P Q 0 = - 1" "5 < min 30 (length Q div 2)"
  proof -
    from that(2) a have "anchorLen Q > 5" by linarith
    then show ?thesis
      unfolding matchSpan_anchor [OF that(1)] Let_def length_tailAnchor
        headAnchor_take tailAnchor_drop a by simp
  qed
  have 5: "calculateHighlights e highlightText highlights = []"
    if "textLayer e = Some textNodes" "textNodes \<noteq> []" "P = fst (buildMap textNodes)"
      "Q = normalizeQuery highlightText" "5 \<le> length Q"
      "indexOf P Q 0 = - 1" "min 30 (length Q div 2) \<le> 5"
    using calc_no_match [of e textNodes highlightText "- 1" "- 1" highlights] 2 that by simp
  from 1 2 3 4 5 show ?thesis by blast
qed

theorem anchor_fallback_guard_witness:
  "indexOf (utf16 ''thequickbrownfoxjumpsoverthelazydog'') (utf16 ''brownfoxjumps'') 0 = 8 \<and>
   matchSpan (utf16 ''thequickbrownfoxjumpsoverthelazydog'') (utf16 ''brownfoxjumps'') = (8, 20) \<and>
   indexOf (utf16 ''helloworld'') (utf16 ''hellothere'') 0 = - 1 \<and>
   min 30 (length (utf16 ''hellothere'') div 2) \<le> 5 \<and>
   matchSpan (utf16 ''helloworld'') (utf16 ''hellothere'') = (- 1, - 1) \<and>
   indexOf (utf16 ''abcdefzzzzzzzzzzzghijkl'') (utf16 ''abcdefghijkl'') 0 = - 1 \<and>
   5 < min 30 (length (utf16 ''abcdefghijkl'') div 2) \<and>
   matchSpan (utf16 ''abcdefzzzzzzzzzzzghijkl'') (utf16 ''abcdefghijkl'') = (0, 22) \<and>
   textLayer (exampleEnv [utf16 ''Hello, world'']) = Some [utf16 ''Hello, world''] \<and>
   utf16 ''helloworld'' = fst (buildMap [utf16 ''Hello, world'']) \<and>
   utf16 ''hellothere'' = normalizeQuery (utf16 ''Hello there'') \<and>
   calculateHighlights (exampleEnv [utf16 ''Hello, world'']) (utf16 ''Hello there'')
     [staleHighlight] = []"
proof -
  have 1: "indexOf (utf16 ''thequickbrownfoxjumpsoverthelazydog'') (utf16 ''brownfoxjumps'') 0 = 8"
    by (simp add: match_equations)
  have 2: "indexOf (utf16 ''helloworld'') (utf16 ''hellothere'') 0 = - 1"
    "min 30 (length (utf16 ''hellothere'') div 2) \<le> 5" "5 \<le> length (utf16 ''hellothere'')"
    by (simp_all add: match_equations)
  have 3: "indexOf (utf16 ''abcdefzzzzzzzzzzzghijkl'') (utf16 ''abcdefghijkl'') 0 = - 1"
    "5 < min 30 (length (utf16 ''abcdefghijkl'') div 2)"
    by (simp_all add: match_equations)
  have 4: "textLayer (exampleEnv [utf16 ''Hello, world'']) = Some [utf16 ''Hello, world'']"
    "[utf16 ''Hello, world''] \<noteq> []"
    "utf16 ''helloworld'' = fst (buildMap [utf16 ''Hello, world''])"
    "utf16 ''hellothere'' = normalizeQuery (utf16 ''Hello there'')"
    by (simp_all add: effect_equations utf16_def)
  have 5: "length (utf16 ''abcdefghijkl'') = 12"
    "indexOf (utf16 ''abcdefzzzzzzzzzzzghijkl'') (take 6 (utf16 ''abcdefghijkl'')) 0 = 0"
    "indexOf (utf16 ''abcdefzzzzzzzzzzzghijkl'') (drop 6 (utf16 ''abcdefghijkl'')) 6 = 17"
    by (simp_all add: match_equations)
  from anchor_fallback_guard
    [of "utf16 ''thequickbrownfoxjumpsoverthelazydog''" "utf16 ''brownfoxjumps''"] 1
  have a: "matchSpan (utf16 ''thequickbrownfoxjumpsoverthelazydog'') (utf16 ''brownfoxjumps'') = (8, 20)"
    by (simp add: utf16_def)
  from anchor_fallback_guard
    [of "utf16 ''helloworld''" "utf16 ''hellothere''" "exampleEnv [utf16 ''Hello, world'']"
        "[utf16 ''Hello, world'']" "utf16 ''Hello there''" "[staleHighlight]"] 2 4
  have b: "matchSpan (utf16 ''helloworld'') (utf16 ''hellothere'') = (- 1, - 1)"
    "calculateHighlights (exampleEnv [utf16 ''Hello, world'']) (utf16 ''Hello there'')
       [staleHighlight] = []"
    by blast+
  from anchor_fallback_guard
    [of "utf16 ''abcdefzzzzzzzzzzzghijkl''" "utf16 ''abcdefghijkl''"] 3
  have c: "matchSpan (utf16 ''abcdefzzzzzzzzzzzghijkl'') (utf16 ''abcdefghijkl'') = (0, 22)"
    by (simp add: 5 Let_def)
  from 1 2 3 4 a b c show ?thesis by simp
qed

text \<open>
  Claim C6. Once a span has been found, an exception thrown by \<open>setStart\<close>,
  \<open>setEnd\<close>, \<open>getClientRects\<close> or \<open>getBoundingClientRect\<close>, or any other exception
  of the body of the \<open>try\<close>, is caught: the computation ends normally and the rectangles
  are cleared.
\<close>

theorem exceptions_in_try_clear_highlights:
  assumes "textLayer e = Some textNodes"
    and "5 \<le> length (normalizeQuery highlightText)"
    and "matchSpan (fst (buildMap textNodes)) (normalizeQuery highlightText) = (startIndex, endIndex)"
    and "startIndex \<noteq> - 1" and "endIndex \<noteq> - 1"
    and "startNodeData = snd (buildMap textNodes) ! nat startIndex"
    and "endNodeData = snd (buildMap textNodes) ! nat endIndex"
  shows "(setStart e (node startNodeData) (index startNodeData) = Some err
          \<or> setEnd e (node endNodeData) (index endNodeData + 1) = Some err
          \<or> getClientRects e (node startNodeData, index startNodeData)
                              (node endNodeData, index endNodeData + 1) = Inl err
          \<or> getBoundingClientRect e = Inl err
          \<or> tryBody e startNodeData endNodeData highlights = Inl err
          \<longrightarrow> calculateHighlights e highlightText highlights = [])"
proof
  assume t: "setStart e (node startNodeData) (index startNodeData) = Some err
          \<or> setEnd e (node endNodeData) (index endNodeData + 1) = Some err
          \<or> getClientRects e (node startNodeData, index startNodeData)
                              (node endNodeData, index endNodeData + 1) = Inl err
          \<or> getBoundingClientRect e = Inl err
          \<or> tryBody e startNodeData endNodeData highlights = Inl err"
  have "\<exists>err'. tryBody e startNodeData endNodeData highlights = Inl err'"
  proof (cases "tryBody e startNodeData endNodeData highlights = Inl err")
    case True
    then show ?thesis ..
  next
    case False
    with t show ?thesis by (intro tryBody_throws) blast
  qed
  then obtain err' where "tryBody e startNodeData endNodeData highlights = Inl err'" ..
  then show "calculateHighlights e highlightText highlights = []"
    using calc_reach [OF assms(1,2,3,4,5), of highlights] assms(6,7) by simp
qed

theorem exceptions_in_try_clear_highlights_witness:
  "textLayer ((exampleEnv foxNodes)\<lparr>setEnd := \<lambda>n offset. Some (DOMException ''InvalidNodeTypeError'')\<rparr>)
     = Some foxNodes \<and>
   5 \<le> length (normalizeQuery (utf16 ''Brown fox, jumps'')) \<and>
   matchSpan (fst (buildMap foxNodes)) (normalizeQuery (utf16 ''Brown fox, jumps'')) = (8, 20) \<and>
   (8::int) \<noteq> - 1 \<and> (20::int) \<noteq> - 1 \<and>
   setEnd ((exampleEnv foxNodes)\<lparr>setEnd := \<lambda>n offset. Some (DOMException ''InvalidNodeTypeError'')\<rparr>)
     (node (snd (buildMap foxNodes) ! nat 20)) (index (snd (buildMap foxNodes) ! nat 20) + 1)
     = Some (DOMException ''InvalidNodeTypeError'') \<and>
   calculateHighlights
     ((exampleEnv foxNodes)\<lparr>setEnd := \<lambda>n offset. Some (DOMException ''InvalidNodeTypeError'')\<rparr>)
     (utf16 ''Brown fox, jumps'') [staleHighlight] = []"
proof -
  let ?e = "(exampleEnv foxNodes)\<lparr>setEnd := \<lambda>n offset. Some (DOMException ''InvalidNodeTypeError'')\<rparr>"
  have 1: "textLayer ?e = Some foxNodes" by (simp add: exampleEnv_def)
  have 2: "5 \<le> length (normalizeQuery (utf16 ''Brown fox, jumps''))"
    by (simp add: effect_equations utf16_def)
  have 3: "matchSpan (fst (buildMap foxNodes)) (normalizeQuery (utf16 ''Brown fox, jumps'')) = (8, 20)"
    by (simp add: effect_equations match_equations)
  have 4: "(8::int) \<noteq> - 1" "(20::int) \<noteq> - 1" by simp_all
  have 5: "setEnd ?e (node (snd (buildMap foxNodes) ! nat 20))
             (index (snd (buildMap foxNodes) ! nat 20) + 1) = Some (DOMException ''InvalidNodeTypeError'')"
    by (simp add: exampleEnv_def)
  from exceptions_in_try_clear_highlights [OF 1 2 3 4 refl refl, of "DOMException ''InvalidNodeTypeError''" "[staleHighlight]"] 5
  have "calculateHighlights ?e (utf16 ''Brown fox, jumps'') [staleHighlight] = []"
    by blast
  with 1 2 3 4 5 show ?thesis by blast
qed

text \<open>
  Claim C7. The character index built by a highlight computation is strictly increasing in
  the order of the normalized text: its entries are strictly ordered by text node and then
  by offset. Every entry names a text node of the page and an offset inside the text of
  that node, and the code unit of the normalized text at the place of the entry is the
  lower-case form of the code unit the entry points to.
\<close>

theorem charMap_strictly_monotonic_and_valid:
  "sorted_wrt entry_less (snd (buildMap textNodes)) \<and>
   length (snd (buildMap textNodes)) = length (fst (buildMap textNodes)) \<and>
   (\<forall>e \<in> set (snd (buildMap textNodes)).
      node e < length textNodes \<and> index e < length (textNodes ! node e)) \<and>
   (\<forall>k < length (snd (buildMap textNodes)).
      fst (buildMap textNodes) ! k =
        toLowerCase (textNodes ! node (snd (buildMap textNodes) ! k)
                               ! index (snd (buildMap textNodes) ! k)))"
proof -
  have "sorted_wrt entry_less (snd (buildMap textNodes))"
    using nodeEntries_sorted [of textNodes 0] by (simp add: buildMap_eq)
  moreover have "\<forall>e \<in> set (snd (buildMap textNodes)).
      node e < length textNodes \<and> index e < length (textNodes ! node e)"
    using nodeEntries_bounds [of _ textNodes 0] by (simp add: buildMap_eq)
  ultimately show ?thesis
    using length_buildMap [of textNodes] buildMap_chars [of _ textNodes] by blast
qed

theorem charMap_strictly_monotonic_and_valid_witness:
  "snd (buildMap [utf16 ''a b'', utf16 ''-'', utf16 ''C!9'']) =
     [\<lparr>node = 0, index = 0\<rparr>, \<lparr>node = 0, index = 2\<rparr>,
      \<lparr>node = 2, index = 0\<rparr>, \<lparr>node = 2, index = 2\<rparr>] \<and>
   fst (buildMap [utf16 ''a b'', utf16 ''-'', utf16 ''C!9'']) = utf16 ''abc9'' \<and>
   sorted_wrt entry_less (snd (buildMap [utf16 ''a b'', utf16 ''-'', utf16 ''C!9''])) \<and>
   \<lparr>node = 2, index = 0\<rparr> \<in> set (snd (buildMap [utf16 ''a b'', utf16 ''-'', utf16 ''C!9''])) \<and>
   node \<lparr>node = 2, index = 0\<rparr> < length [utf16 ''a b'', utf16 ''-'', utf16 ''C!9''] \<and>
   index \<lparr>node = 2, index = 0\<rparr> < length ([utf16 ''a b'', utf16 ''-'', utf16 ''C!9''] ! 2) \<and>
   (2::nat) < length (snd (buildMap [utf16 ''a b'', utf16 ''-'', utf16 ''C!9''])) \<and>
   fst (buildMap [utf16 ''a b'', utf16 ''-'', utf16 ''C!9'']) ! 2 =
     toLowerCase ([utf16 ''a b'', utf16 ''-'', utf16 ''C!9''] ! 2 ! 0)"
  using charMap_strictly_monotonic_and_valid [of "[utf16 ''a b'', utf16 ''-'', utf16 ''C!9'']"]
  by (simp add: buildMap_def utf16_def isAlphaNumeric_def toLowerCase_def)



text \<open>
  Claim C9. The highlight computation leaves the rectangles as they were, without clearing
  them, when the query has at least 5 code units and its normalized form fewer than 5, when
  the text layer is missing or has no text node, when a lookup in the character index fails
  for a span that was found, and when the rectangle of the page is missing after the range
  has been built.
\<close>

theorem early_returns_leave_highlights_unchanged:
  assumes "(5 \<le> length highlightText \<and> length (normalizeQuery highlightText) < 5)
     \<or> textLayer e = None
     \<or> textLayer e = Some []
     \<or> (\<exists>textNodes startIndex endIndex.
           textLayer e = Some textNodes \<and>
           matchSpan (fst (buildMap textNodes)) (normalizeQuery highlightText) = (startIndex, endIndex) \<and>
           startIndex \<noteq> - 1 \<and> endIndex \<noteq> - 1 \<and>
           (charMapAt (snd (buildMap textNodes)) startIndex = None \<or>
            charMapAt (snd (buildMap textNodes)) endIndex = None))
     \<or> (\<exists>textNodes startIndex endIndex startNodeData endNodeData rects.
           textLayer e = Some textNodes \<and>
           matchSpan (fst (buildMap textNodes)) (normalizeQuery highlightText) = (startIndex, endIndex) \<and>
           startIndex \<noteq> - 1 \<and> endIndex \<noteq> - 1 \<and>
           charMapAt (snd (buildMap textNodes)) startIndex = Some startNodeData \<and>
           charMapAt (snd (buildMap textNodes)) endIndex = Some endNodeData \<and>
           setStart e (node startNodeData) (index startNodeData) = None \<and>
           setEnd e (node endNodeData) (index endNodeData + 1) = None \<and>
           getClientRects e (node startNodeData, index startNodeData)
                            (node endNodeData, index endNodeData + 1) = Inr rects \<and>
           getBoundingClientRect e = Inr None)"
  shows "calculateHighlights e highlightText highlights = highlights"
proof -
  have 1: ?thesis if "length (normalizeQuery highlightText) < 5"
    using that by (simp add: calculateHighlights_def split_def Let_def split: option.split)
  have 2: ?thesis if "textLayer e = None"
    using that by (simp add: calculateHighlights_def)
  have 3: ?thesis if "textLayer e = Some []"
    using that by (simp add: calculateHighlights_def)
  have 4: ?thesis
    if "textLayer e = Some textNodes"
      "matchSpan (fst (buildMap textNodes)) (normalizeQuery highlightText) = (startIndex, endIndex)"
      "startIndex \<noteq> - 1" "endIndex \<noteq> - 1"
      "charMapAt (snd (buildMap textNodes)) startIndex = None \<or>
       charMapAt (snd (buildMap textNodes)) endIndex = None"
    for textNodes startIndex endIndex
    using that
    by (auto simp: calculateHighlights_def split_def Let_def split: option.split)
  have 5: ?thesis
    if "textLayer e = Some textNodes"
      "matchSpan (fst (buildMap textNodes)) (normalizeQuery highlightText) = (startIndex, endIndex)"
      "startIndex \<noteq> - 1" "endIndex \<noteq> - 1"
      "charMapAt (snd (buildMap textNodes)) startIndex = Some startNodeData"
      "charMapAt (snd (buildMap textNodes)) endIndex = Some endNodeData"
      "setStart e (node startNodeData) (index startNodeData) = None"
      "setEnd e (node endNodeData) (index endNodeData + 1) = None"
      "getClientRects e (node startNodeData, index startNodeData)
                              (node endNodeData, index endNodeData + 1) = Inr rects"
      "getBoundingClientRect e = Inr None"
    for textNodes startIndex endIndex startNodeData endNodeData rects
    using that
    by (simp add: calculateHighlights_def split_def Let_def tryBody_no_pageRect)
  from assms 1 2 3 4 5 show ?thesis by blast
qed

theorem early_returns_leave_highlights_unchanged_witness:
  "5 \<le> length (utf16 ''a-b-c-d'') \<and> length (normalizeQuery (utf16 ''a-b-c-d'')) < 5 \<and>
   calculateHighlights (exampleEnv foxNodes) (utf16 ''a-b-c-d'') [staleHighlight] = [staleHighlight]"
proof -
  have 1: "5 \<le> length (utf16 ''a-b-c-d'') \<and> length (normalizeQuery (utf16 ''a-b-c-d'')) < 5"
    by (simp add: utf16_def normalizeQuery_def isAlphaNumeric_def)
  from early_returns_leave_highlights_unchanged [of "utf16 ''a-b-c-d''" "exampleEnv foxNodes" "[staleHighlight]"] 1
  have "calculateHighlights (exampleEnv foxNodes) (utf16 ''a-b-c-d'') [staleHighlight] = [staleHighlight]"
    by blast
  with 1 show ?thesis by blast
qed

text \<open>
  Claim C10. Whenever the exact search or the anchor fallback produces a span over the
  normalized text of a page, \<open>0 \<le> startIndex \<le> endIndex < length\<close> of the character
  index, so both lookups in the character index succeed.
\<close>

theorem match_span_within_charMap:
  assumes "matchSpan (fst (buildMap textNodes)) normalizedQuery = (startIndex, endIndex)"
    and "startIndex \<noteq> - 1" and "endIndex \<noteq> - 1"
  shows "0 \<le> startIndex \<and> startIndex \<le> endIndex \<and>
         endIndex < int (length (snd (buildMap textNodes))) \<and>
         charMapAt (snd (buildMap textNodes)) startIndex \<noteq> None \<and>
         charMapAt (snd (buildMap textNodes)) endIndex \<noteq> None"
  using matchSpan_in_bounds [OF assms] by (simp add: charMapAt_def length_buildMap)

theorem match_span_within_charMap_witness:
  "matchSpan (fst (buildMap [utf16 ''The quick brown '', utf16 ''fox jumps.'']))
     (utf16 ''brownfoxjumps'') = (8, 20) \<and>
   (8::int) \<noteq> - 1 \<and> (20::int) \<noteq> - 1 \<and> (0::int) \<le> 8 \<and> (8::int) \<le> 20 \<and>
   20 < int (length (snd (buildMap [utf16 ''The quick brown '', utf16 ''fox jumps.'']))) \<and>
   charMapAt (snd (buildMap [utf16 ''The quick brown '', utf16 ''fox jumps.''])) 8 \<noteq> None \<and>
   charMapAt (snd (buildMap [utf16 ''The quick brown '', utf16 ''fox jumps.''])) 20 \<noteq> None"
proof -
  have m: "matchSpan (fst (buildMap [utf16 ''The quick brown '', utf16 ''fox jumps.'']))
     (utf16 ''brownfoxjumps'') = (8, 20)"
    by (simp add: buildMap_def matchSpan_def indexOf_def utf16_def Let_def
        isAlphaNumeric_def toLowerCase_def)
  from match_span_within_charMap [OF m] m show ?thesis by simp
qed

end
